theory Spec2Isabelle
  imports Main
begin

section \<open>Python values, dictionaries and exceptions\<close>

text \<open>
  The records that \<^verbatim>\<open>tools/web_scraper.py\<close> builds are Python dictionaries from string
  keys to values of four kinds: \<^verbatim>\<open>None\<close>, booleans, integers and strings. A dictionary
  keeps its keys in insertion order, so it is an association list in which every key
  occurs once. A character stands for a code point below 256.
\<close>

datatype pyval = VNone | VBool bool | VInt int | VStr string

type_synonym pydict = "(string \<times> pyval) list"

datatype exn = KeyError string | TypeError | Exception string

text \<open>\<^verbatim>\<open>d[k]\<close>: raises \<^verbatim>\<open>KeyError\<close> when the key is absent.\<close>

definition getitem :: "pydict \<Rightarrow> string \<Rightarrow> exn + pyval" where
  "getitem d k = (case map_of d k of None \<Rightarrow> Inl (KeyError k) | Some v \<Rightarrow> Inr v)"

text \<open>\<^verbatim>\<open>d[k] = v\<close>: replaces the value in place, or appends a new key at the end.\<close>

fun setitem :: "pydict \<Rightarrow> string \<Rightarrow> pyval \<Rightarrow> pydict" where
  "setitem [] k v = [(k, v)]"
| "setitem ((k', v') # d) k v =
     (if k' = k then (k, v) # d else (k', v') # setitem d k v)"

text \<open>\<^verbatim>\<open>del d[k]\<close>: raises \<^verbatim>\<open>KeyError\<close> when the key is absent.\<close>

definition delitem :: "pydict \<Rightarrow> string \<Rightarrow> exn + pydict" where
  "delitem d k =
     (if map_of d k = None then Inl (KeyError k)
      else Inr (filter (\<lambda>kv. fst kv \<noteq> k) d))"

text \<open>\<^verbatim>\<open>k in d\<close>.\<close>

definition has_key :: "pydict \<Rightarrow> string \<Rightarrow> bool" where
  "has_key d k = (map_of d k \<noteq> None)"

text \<open>The truth value of a Python value, as an \<^verbatim>\<open>if\<close> reads it.\<close>

fun truthy :: "pyval \<Rightarrow> bool" where
  "truthy VNone = False"
| "truthy (VBool b) = b"
| "truthy (VInt i) = (i \<noteq> 0)"
| "truthy (VStr s) = (s \<noteq> [])"

subsection \<open>Formatting an integer\<close>

definition digit :: "nat \<Rightarrow> char" where
  "digit n = char_of (48 + n)"

fun str_nat :: "nat \<Rightarrow> string" where
  "str_nat n = (if n < 10 then [digit n] else str_nat (n div 10) @ [digit (n mod 10)])"

declare str_nat.simps [simp del]

text \<open>\<^verbatim>\<open>str(i)\<close> for an integer, as an f-string formats it.\<close>

definition str_int :: "int \<Rightarrow> string" where
  "str_int i = (if i < 0 then CHR ''-'' # str_nat (nat (- i)) else str_nat (nat i))"

subsection \<open>Whitespace and \<^verbatim>\<open>str.strip\<close>\<close>

text \<open>
  \<^verbatim>\<open>str.isspace\<close> on the code points below 256: tab, line feed, vertical tab, form feed,
  carriage return, the four separators 28 to 31, space, next line (133) and no-break
  space (160).
\<close>

definition py_isspace :: "char \<Rightarrow> bool" where
  "py_isspace c = ((of_char c :: nat) \<in> set [9, 10, 11, 12, 13, 28, 29, 30, 31, 32, 133, 160])"

definition lstrip :: "string \<Rightarrow> string" where
  "lstrip s = dropWhile py_isspace s"

definition rstrip :: "string \<Rightarrow> string" where
  "rstrip s = rev (dropWhile py_isspace (rev s))"

definition strip :: "string \<Rightarrow> string" where
  "strip s = rstrip (lstrip s)"

text \<open>The words of a string between runs of whitespace (how a class attribute is read).\<close>

fun split_ws :: "string \<Rightarrow> string \<Rightarrow> string list" where
  "split_ws [] w = (if w = [] then [] else [w])"
| "split_ws (c # cs) w =
     (if py_isspace c then (if w = [] then split_ws cs [] else w # split_ws cs [])
      else split_ws cs (w @ [c]))"

text \<open>\<^verbatim>\<open>sep.join(parts)\<close>.\<close>

fun join :: "string \<Rightarrow> string list \<Rightarrow> string" where
  "join sep [] = []"
| "join sep [x] = x"
| "join sep (x # y # ys) = x @ sep @ join sep (y # ys)"

section \<open>The fetcher\<close>

text \<open>
  What the HTTP transport does for one request. \<^verbatim>\<open>session.get\<close> either raises an
  exception \<open>e\<close> (a connection failure, a timeout, a DNS failure, a malformed URL), kept
  as the string \<^verbatim>\<open>str(e)\<close>, or completes with a status code; reading the body with
  \<^verbatim>\<open>response.text()\<close> then either raises or gives the text.
\<close>

datatype body = TextRaised string | Text string

datatype http_result = GetRaised string | Response int body

definition fetch_url :: "(string \<Rightarrow> http_result) \<Rightarrow> string \<Rightarrow> pydict" where
  "fetch_url session_get url =
     (case session_get url of
        GetRaised e \<Rightarrow>
          [(''url'', VStr url), (''success'', VBool False), (''error'', VStr e),
           (''content'', VNone)]
      | Response status b \<Rightarrow>
          if status \<noteq> 200 then
            [(''url'', VStr url), (''success'', VBool False), (''status'', VInt status),
             (''error'', VStr (''HTTP error: '' @ str_int status)), (''content'', VNone)]
          else
            (case b of
               TextRaised e \<Rightarrow>
                 [(''url'', VStr url), (''success'', VBool False), (''error'', VStr e),
                  (''content'', VNone)]
             | Text content \<Rightarrow>
                 [(''url'', VStr url), (''success'', VBool True), (''status'', VInt status),
                  (''content'', VStr content)]))"

section \<open>The extractor\<close>

subsection \<open>The parsed tree\<close>

text \<open>
  A BeautifulSoup tree: a tag with its name, its attributes and its contents, a string
  of text, or a string that \<^verbatim>\<open>get_text\<close> skips (a comment, a doctype, a declaration).
  The soup itself is the root tag, named \<^verbatim>\<open>[document]\<close>.
\<close>

datatype node =
    Tag string "(string \<times> string) list" "node list"
  | NavigableString string
  | Comment string

text \<open>All nodes below a node, in document order.\<close>

fun descendants :: "node \<Rightarrow> node list" where
  "descendants (Tag n a cs) = concat (map (\<lambda>c. c # descendants c) cs)"
| "descendants (NavigableString s) = []"
| "descendants (Comment s) = []"

fun has_name :: "string list \<Rightarrow> node \<Rightarrow> bool" where
  "has_name ns (Tag n a cs) = (n \<in> set ns)"
| "has_name ns (NavigableString s) = False"
| "has_name ns (Comment s) = False"

text \<open>\<^verbatim>\<open>node.find_all([names])\<close>, also written \<^verbatim>\<open>node([names])\<close>.\<close>

definition find_all :: "string list \<Rightarrow> node \<Rightarrow> node list" where
  "find_all ns t = filter (has_name ns) (descendants t)"

text \<open>
  The tree after \<^verbatim>\<open>element.decompose()\<close> for every element of \<^verbatim>\<open>soup([names])\<close>: each
  tag with one of the names is gone, with everything below it.
\<close>

fun decompose_all :: "string list \<Rightarrow> node \<Rightarrow> node" where
  "decompose_all ns (Tag n a cs) =
     Tag n a (map (decompose_all ns) (filter (\<lambda>c. \<not> has_name ns c) cs))"
| "decompose_all ns (NavigableString s) = NavigableString s"
| "decompose_all ns (Comment s) = Comment s"

text \<open>\<^verbatim>\<open>node.get_text()\<close>: the text strings below the node, joined in document order.\<close>

fun get_text :: "node \<Rightarrow> string" where
  "get_text (Tag n a cs) = concat (map get_text cs)"
| "get_text (NavigableString s) = s"
| "get_text (Comment s) = []"

subsection \<open>The CSS selectors the extractor uses\<close>

datatype selector =
    TypeSel string
  | AttrSel string string
  | IdSel string
  | ClassSel string

fun matches :: "selector \<Rightarrow> node \<Rightarrow> bool" where
  "matches (TypeSel t) (Tag n a cs) = (n = t)"
| "matches (AttrSel k v) (Tag n a cs) = (map_of a k = Some v)"
| "matches (IdSel i) (Tag n a cs) = (map_of a ''id'' = Some i)"
| "matches (ClassSel c) (Tag n a cs) =
     (case map_of a ''class'' of None \<Rightarrow> False | Some v \<Rightarrow> c \<in> set (split_ws v []))"
| "matches s (NavigableString x) = False"
| "matches s (Comment x) = False"

text \<open>\<^verbatim>\<open>soup.select(selector)\<close>: the matching tags below the node, in document order.\<close>

definition select :: "selector \<Rightarrow> node \<Rightarrow> node list" where
  "select s t = filter (matches s) (descendants t)"

text \<open>
  The list the extractor probes:
  \<^verbatim>\<open>['main', 'article', '[role="main"]', '#content', '.content', '#main', '.main']\<close>.
\<close>

definition containers :: "selector list" where
  "containers =
     [TypeSel ''main'', TypeSel ''article'', AttrSel ''role'' ''main'', IdSel ''content'',
      ClassSel ''content'', IdSel ''main'', ClassSel ''main'']"

definition noise_tags :: "string list" where
  "noise_tags = [''script'', ''style'', ''nav'', ''footer'', ''iframe'']"

definition text_tags :: "string list" where
  "text_tags = [''p'', ''h1'', ''h2'', ''h3'', ''h4'', ''h5'', ''h6'', ''li'']"

text \<open>\<^verbatim>\<open>soup.body\<close>: the first tag named \<^verbatim>\<open>body\<close> below the soup, or \<^verbatim>\<open>None\<close>.\<close>

definition soup_body :: "node \<Rightarrow> node option" where
  "soup_body soup = (case find_all [''body''] soup of [] \<Rightarrow> None | b # bs \<Rightarrow> Some b)"

subsection \<open>\<^verbatim>\<open>extract_main_content\<close>\<close>

text \<open>
  The loop over the selectors: \<^verbatim>\<open>main_content\<close> is the first element of the first
  non-empty selection, and the loop stops there.
\<close>

fun probe :: "selector list \<Rightarrow> node \<Rightarrow> node option" where
  "probe [] soup = None"
| "probe (container # rest) soup =
     (case select container soup of
        [] \<Rightarrow> probe rest soup
      | c # cs \<Rightarrow> Some c)"

text \<open>The two fallbacks: the body, then the whole soup. A tag is never falsy.\<close>

definition main_content :: "node \<Rightarrow> node" where
  "main_content soup =
     (case probe containers soup of
        Some c \<Rightarrow> c
      | None \<Rightarrow> (case soup_body soup of Some b \<Rightarrow> b | None \<Rightarrow> soup))"

text \<open>The loop that builds \<^verbatim>\<open>text\<close>.\<close>

fun collect_text :: "node list \<Rightarrow> string \<Rightarrow> string" where
  "collect_text [] text = text"
| "collect_text (p # ps) text =
     collect_text ps (text @ strip (get_text p) @ [CHR 0x0A, CHR 0x0A])"

text \<open>
  The parser is the library's: \<^verbatim>\<open>BeautifulSoup(html_content, 'html.parser')\<close> gives a
  tree or raises. The body of the \<^verbatim>\<open>try\<close> is \<open>extract_body\<close>; the \<^verbatim>\<open>except\<close> clause
  turns every exception into the fixed string.
\<close>

type_synonym parser = "string \<Rightarrow> exn + node"

definition extract_body :: "parser \<Rightarrow> string \<Rightarrow> exn + string" where
  "extract_body BeautifulSoup html_content =
     (case BeautifulSoup html_content of
        Inl e \<Rightarrow> Inl e
      | Inr parsed \<Rightarrow>
          let soup = decompose_all noise_tags parsed;
              region = main_content soup;
              text = collect_text (find_all text_tags region) []
          in Inr (strip text))"

definition extract_main_content :: "parser \<Rightarrow> string \<Rightarrow> string" where
  "extract_main_content BeautifulSoup html_content =
     (case extract_body BeautifulSoup html_content of
        Inl e \<Rightarrow> ''Error extracting content''
      | Inr text \<Rightarrow> text)"

section \<open>The batch\<close>

text \<open>
  \<^verbatim>\<open>asyncio.gather\<close> on the tasks: the tasks finish in the order the event loop gives,
  \<open>order\<close> being the list of task positions in completion order, and each result is
  stored at the position of its task. The call returns once every position is filled;
  \<open>None\<close> stands for a call that never returns.
\<close>

fun complete :: "'a list \<Rightarrow> nat list \<Rightarrow> 'a option list \<Rightarrow> 'a option list" where
  "complete tasks [] slots = slots"
| "complete tasks (i # order) slots =
     complete tasks order
       (if i < length tasks then slots[i := Some (tasks ! i)] else slots)"

definition gather :: "nat list \<Rightarrow> 'a list \<Rightarrow> 'a list option" where
  "gather order tasks = those (complete tasks order (replicate (length tasks) None))"

text \<open>A completion order in which each of the \<open>m\<close> tasks finishes once.\<close>

definition schedule :: "nat \<Rightarrow> nat list \<Rightarrow> bool" where
  "schedule m order = (distinct order \<and> set order = {0..<m})"

text \<open>
  One round of the loop over \<^verbatim>\<open>results\<close>. The content of a successful record is the
  string that \<^verbatim>\<open>fetch_url\<close> stored, as the annotation of \<^verbatim>\<open>extract_main_content\<close>
  asks; the branch for any other value, which the loop never reaches, is left as an error.
\<close>

definition process_result :: "parser \<Rightarrow> pydict \<Rightarrow> exn + pydict" where
  "process_result BeautifulSoup result =
     (case getitem result ''success'' of
        Inl e \<Rightarrow> Inl e
      | Inr s \<Rightarrow>
          if truthy s then
            (case getitem result ''content'' of
               Inl e \<Rightarrow> Inl e
             | Inr (VStr html) \<Rightarrow>
                 delitem
                   (setitem result ''extracted_content''
                      (VStr (extract_main_content BeautifulSoup html)))
                   ''content''
             | Inr other \<Rightarrow> Inl TypeError)
          else Inr result)"

fun process_results :: "parser \<Rightarrow> pydict list \<Rightarrow> exn + pydict list" where
  "process_results BeautifulSoup [] = Inr []"
| "process_results BeautifulSoup (result # results) =
     (case process_result BeautifulSoup result of
        Inl e \<Rightarrow> Inl e
      | Inr r \<Rightarrow>
          (case process_results BeautifulSoup results of
             Inl e \<Rightarrow> Inl e
           | Inr rs \<Rightarrow> Inr (r # rs)))"

text \<open>
  \<^verbatim>\<open>scrape_urls\<close>. \<open>ClientSession\<close> is the library's: given the connector's limit, what
  the transport does for the request of the task at each position. The result is
  \<open>None\<close> when the call never returns, an exception when it raises, the list of
  records otherwise.
\<close>

definition scrape_urls ::
  "parser \<Rightarrow> (int \<Rightarrow> nat \<Rightarrow> string \<Rightarrow> http_result) \<Rightarrow> nat list \<Rightarrow>
   string list \<Rightarrow> int \<Rightarrow> (exn + pydict list) option" where
  "scrape_urls BeautifulSoup ClientSession order urls max_concurrent =
     (let session = ClientSession max_concurrent;
          tasks = map (\<lambda>(i, url). fetch_url (session i) url) (enumerate 0 urls)
      in case gather order tasks of
           None \<Rightarrow> None
         | Some results \<Rightarrow> Some (process_results BeautifulSoup results))"

section \<open>Sample inputs\<close>

text \<open>
  A transport for three requests: the first is answered with a page, the second with
  status 404, and the connection of the third is refused.
\<close>

definition sample_html :: string where
  "sample_html = ''<body><h1>Title</h1><p> one </p><nav><p>menu</p></nav><ul><li>two</li></ul></body>''"

definition sample_doc :: node where
  "sample_doc =
     Tag ''[document]'' []
       [Tag ''body'' []
          [Tag ''h1'' [] [NavigableString ''Title''],
           Tag ''p'' [] [NavigableString '' one ''],
           Tag ''nav'' [] [Tag ''p'' [] [NavigableString ''menu'']],
           Tag ''ul'' [] [Tag ''li'' [] [NavigableString ''two'']]]]"

definition sample_session :: "int \<Rightarrow> nat \<Rightarrow> string \<Rightarrow> http_result" where
  "sample_session limit i url =
     (if i = 0 then Response 200 (Text sample_html)
      else if i = 1 then Response 404 (Text ''gone'')
      else GetRaised
   ''Cannot connect to host c:80 ssl:default [Connection refused]'')"

definition sample_urls :: "string list" where
  "sample_urls = [''http://a'', ''http://b'', ''http://c'']"

text \<open>The body of the sample page once the navigation is removed.\<close>

definition sample_body :: node where
  "sample_body =
     Tag ''body'' []
       [Tag ''h1'' [] [NavigableString ''Title''],
        Tag ''p'' [] [NavigableString '' one ''],
        Tag ''ul'' [] [Tag ''li'' [] [NavigableString ''two'']]]"

text \<open>A page with an article after a block of class \<^verbatim>\<open>content\<close>.\<close>

definition article_html :: string where
  "article_html =
     ''<body><div class='' @ [CHR 0x22] @ ''post content'' @ [CHR 0x22] @
     ''><p>side</p></div><article><h2>Head</h2><p>text</p></article></body>''"

definition article_node :: node where
  "article_node =
     Tag ''article'' []
       [Tag ''h2'' [] [NavigableString ''Head''], Tag ''p'' [] [NavigableString ''text'']]"

definition article_doc :: node where
  "article_doc =
     Tag ''[document]'' []
       [Tag ''body'' []
          [Tag ''div'' [(''class'', ''post content'')] [Tag ''p'' [] [NavigableString ''side'']],
           article_node]]"

text \<open>
  A stand-in for the library's parser on the inputs used below. It knows the two
  sample pages, the empty input and a page cut off inside a paragraph, whose tag the
  library closes at the end of the input. It rejects the malformed marked section
  \<^verbatim>\<open><![1\<close>, on which the library raises. Any other input it reads as one string of
  text, as the library does for input without markup.
\<close>

definition sample_parser :: parser where
  "sample_parser html =
     (if html = sample_html then Inr sample_doc
      else if html = article_html then Inr article_doc
      else if html = [] then Inr (Tag ''[document]'' [] [])
      else if html = ''<p>cut'' then
        Inr (Tag ''[document]'' [] [Tag ''p'' [] [NavigableString ''cut'']])
      else if html = ''<![1'' then
        Inl (Exception ''The markup you provided was rejected by the parser.'')
      else Inr (Tag ''[document]'' [] [NavigableString html]))"

text \<open>
  A transport whose three answers are a page the parser rejects, an empty page and a
  page cut off inside a paragraph.
\<close>

definition degraded_session :: "int \<Rightarrow> nat \<Rightarrow> string \<Rightarrow> http_result" where
  "degraded_session limit i url =
     (if i = 0 then Response 200 (Text ''<![1'')
      else if i = 1 then Response 200 (Text [])
      else Response 200 (Text ''<p>cut''))"



section \<open>The batch returns one record per task\<close>

lemma complete_length: "length (complete tasks order slots) = length slots"
  by (induction order arbitrary: slots) auto

lemma complete_nth:
  "i < length slots \<Longrightarrow> length slots = length tasks \<Longrightarrow>
   complete tasks order slots ! i = (if i \<in> set order then Some (tasks ! i) else slots ! i)"
proof (induction order arbitrary: slots)
  case Nil
  then show ?case by simp
next
  case (Cons j order)
  then show ?case by (auto simp: nth_list_update)
qed

lemma those_map_Some: "those (map Some xs) = Some xs"
  by (induction xs) auto

lemma gather_schedule:
  assumes "schedule (length tasks) order"
  shows "gather order tasks = Some tasks"
proof -
  have "complete tasks order (replicate (length tasks) None) = map Some tasks"
  proof (rule nth_equalityI)
    show "length (complete tasks order (replicate (length tasks) None)) = length (map Some tasks)"
      by (simp add: complete_length)
  next
    fix i assume "i < length (complete tasks order (replicate (length tasks) None))"
    then have i: "i < length tasks" by (simp add: complete_length)
    with assms have "i \<in> set order" by (simp add: schedule_def)
    with i show "complete tasks order (replicate (length tasks) None) ! i = map Some tasks ! i"
      by (simp add: complete_nth)
  qed
  then show ?thesis by (simp add: gather_def those_map_Some)
qed

lemma process_results_Inr:
  "(process_results P xs = Inr rs) =
   (length rs = length xs \<and> (\<forall>i<length xs. process_result P (xs ! i) = Inr (rs ! i)))"
proof (induction xs arbitrary: rs)
  case Nil
  then show ?case by auto
next
  case (Cons x xs)
  show ?case
  proof (cases rs)
    case Nil
    then show ?thesis by (auto split: sum.splits)
  next
    case (Cons r rs')
    then show ?thesis using Cons.IH [of rs']
      by (auto split: sum.splits simp: nth_Cons split: nat.splits)
  qed
qed

lemma process_results_total:
  assumes "\<forall>x\<in>set xs. \<exists>r. process_result P x = Inr r"
  shows "\<exists>rs. process_results P xs = Inr rs"
  using assms by (induction xs) (auto split: sum.splits)

text \<open>What the loop makes of each of the four records \<open>fetch_url\<close> can build.\<close>

lemma process_get_raised:
  "g u = GetRaised e \<Longrightarrow>
   process_result P (fetch_url g u) =
     Inr [(''url'', VStr u), (''success'', VBool False), (''error'', VStr e), (''content'', VNone)]"
  by (simp add: process_result_def fetch_url_def getitem_def)

lemma process_bad_status:
  "g u = Response status b \<Longrightarrow> status \<noteq> 200 \<Longrightarrow>
   process_result P (fetch_url g u) =
     Inr [(''url'', VStr u), (''success'', VBool False), (''status'', VInt status),
          (''error'', VStr (''HTTP error: '' @ str_int status)), (''content'', VNone)]"
  by (simp add: process_result_def fetch_url_def getitem_def)

lemma process_text_raised:
  "g u = Response 200 (TextRaised e) \<Longrightarrow>
   process_result P (fetch_url g u) =
     Inr [(''url'', VStr u), (''success'', VBool False), (''error'', VStr e), (''content'', VNone)]"
  by (simp add: process_result_def fetch_url_def getitem_def)

lemma process_text:
  "g u = Response 200 (Text html) \<Longrightarrow>
   process_result P (fetch_url g u) =
     Inr [(''url'', VStr u), (''success'', VBool True), (''status'', VInt 200),
          (''extracted_content'', VStr (extract_main_content P html))]"
  by (simp add: process_result_def fetch_url_def getitem_def delitem_def)

lemma process_fetch_cases:
  obtains e where "g u = GetRaised e"
  | status b where "g u = Response status b" "status \<noteq> 200"
  | e where "g u = Response 200 (TextRaised e)"
  | html where "g u = Response 200 (Text html)"
proof (cases "g u")
  case (GetRaised e)
  then show ?thesis using that by blast
next
  case (Response status b)
  show ?thesis
  proof (cases "status = 200")
    case True
    with Response show ?thesis using that by (cases b) auto
  next
    case False
    with Response show ?thesis using that by blast
  qed
qed

lemma process_fetch_total: "\<exists>r. process_result P (fetch_url g u) = Inr r"
  by (rule process_fetch_cases [of g u])
     (auto simp: process_get_raised process_bad_status process_text_raised process_text)

lemma tasks_nth:
  "i < length urls \<Longrightarrow>
   map (\<lambda>(i, url). fetch_url (session i) url) (enumerate 0 urls) ! i
     = fetch_url (session i) (urls ! i)"
  by (simp add: nth_enumerate_eq)

text \<open>
  Under a completion order in which every task finishes, the batch returns, without an
  exception, and the record at each position is the processed record of the task at
  that position.
\<close>

lemma scrape_urls_run:
  assumes "schedule (length urls) order"
  shows "\<exists>rs. scrape_urls P T order urls C = Some (Inr rs) \<and> length rs = length urls \<and>
           (\<forall>i<length urls. process_result P (fetch_url (T C i) (urls ! i)) = Inr (rs ! i))"
proof -
  let ?tasks = "map (\<lambda>(i, url). fetch_url (T C i) url) (enumerate 0 urls)"
  have len: "length ?tasks = length urls" by simp
  have g: "gather order ?tasks = Some ?tasks"
    using assms by (intro gather_schedule) simp
  have "\<forall>x\<in>set ?tasks. \<exists>r. process_result P x = Inr r"
    by (auto simp: process_fetch_total)
  then obtain rs where rs: "process_results P ?tasks = Inr rs"
    using process_results_total by blast
  have "length rs = length ?tasks \<and>
      (\<forall>i<length ?tasks. process_result P (?tasks ! i) = Inr (rs ! i))"
    using rs process_results_Inr [of P ?tasks rs] by blast
  then have "length rs = length urls"
    and "\<forall>i<length urls. process_result P (?tasks ! i) = Inr (rs ! i)"
    unfolding len by blast+
  moreover have "scrape_urls P T order urls C = Some (Inr rs)"
    using g rs by (simp add: scrape_urls_def)
  moreover have "?tasks ! i = fetch_url (T C i) (urls ! i)" if "i < length urls" for i
    using that by (rule tasks_nth)
  ultimately show ?thesis by auto
qed

lemma sample_schedule: "schedule (length sample_urls) [2, 0, 1]"
  by (auto simp: schedule_def sample_urls_def)

text \<open>
  C1. For every list of URLs and every concurrency cap, whatever the order in which
  the fetches complete, \<open>scrape_urls\<close> returns a list with one record per URL, and the
  record at each position carries the URL at that position.
\<close>

theorem scrape_urls_order_preserved:
  assumes "schedule (length urls) order"
  shows "\<exists>rs. scrape_urls P T order urls C = Some (Inr rs) \<and> length rs = length urls \<and>
           (\<forall>i<length urls. getitem (rs ! i) ''url'' = Inr (VStr (urls ! i)))"
proof -
  obtain rs where rs: "scrape_urls P T order urls C = Some (Inr rs)" "length rs = length urls"
    and each: "\<forall>i<length urls. process_result P (fetch_url (T C i) (urls ! i)) = Inr (rs ! i)"
    using scrape_urls_run [OF assms] by blast
  have "getitem (rs ! i) ''url'' = Inr (VStr (urls ! i))" if "i < length urls" for i
  proof (rule process_fetch_cases [of "T C i" "urls ! i"])
    fix e assume "T C i (urls ! i) = GetRaised e"
    from process_get_raised [of "T C i" "urls ! i" _ P, OF this] each that show ?thesis
      by (simp add: getitem_def)
  next
    fix status b assume "T C i (urls ! i) = Response status b" "status \<noteq> 200"
    from process_bad_status [of "T C i" "urls ! i" _ _ P, OF this] each that show ?thesis
      by (simp add: getitem_def)
  next
    fix e assume "T C i (urls ! i) = Response 200 (TextRaised e)"
    from process_text_raised [of "T C i" "urls ! i" _ P, OF this] each that show ?thesis
      by (simp add: getitem_def)
  next
    fix html assume "T C i (urls ! i) = Response 200 (Text html)"
    from process_text [of "T C i" "urls ! i" _ P, OF this] each that show ?thesis
      by (simp add: getitem_def)
  qed
  with rs show ?thesis by blast
qed

theorem scrape_urls_order_preserved_witness:
  "schedule (length sample_urls) [2, 0, 1] \<and>
   (\<exists>rs. scrape_urls sample_parser sample_session [2, 0, 1] sample_urls 5 = Some (Inr rs) \<and>
      length rs = 3 \<and>
      getitem (rs ! 0) ''url'' = Inr (VStr ''http://a'') \<and>
      getitem (rs ! 1) ''url'' = Inr (VStr ''http://b'') \<and>
      getitem (rs ! 2) ''url'' = Inr (VStr ''http://c''))"
proof -
  obtain rs where
    "scrape_urls sample_parser sample_session [2, 0, 1] sample_urls 5 = Some (Inr rs)"
    "length rs = length sample_urls"
    "\<forall>i<length sample_urls. getitem (rs ! i) ''url'' = Inr (VStr (sample_urls ! i))"
    using scrape_urls_order_preserved [OF sample_schedule] by blast
  then show ?thesis
    using sample_schedule by (auto simp: sample_urls_def)
qed

section \<open>The records of the batch\<close>

lemma record_shapes:
  assumes "process_result P (fetch_url g u) = Inr r"
  shows "(\<exists>e. r = [(''url'', VStr u), (''success'', VBool False), (''error'', VStr e),
                   (''content'', VNone)]) \<or>
         (\<exists>status. status \<noteq> 200 \<and>
            r = [(''url'', VStr u), (''success'', VBool False), (''status'', VInt status),
                 (''error'', VStr (''HTTP error: '' @ str_int status)), (''content'', VNone)]) \<or>
         (\<exists>html. r = [(''url'', VStr u), (''success'', VBool True), (''status'', VInt 200),
                   (''extracted_content'', VStr (extract_main_content P html))])"
proof (rule process_fetch_cases [of g u])
  fix e assume "g u = GetRaised e"
  from process_get_raised [of g u e P, OF this] assms show ?thesis by simp
next
  fix status b assume "g u = Response status b" "status \<noteq> 200"
  from process_bad_status [of g u status b P, OF this] assms this(2) show ?thesis by simp
next
  fix e assume "g u = Response 200 (TextRaised e)"
  from process_text_raised [of g u e P, OF this] assms show ?thesis by simp
next
  fix html assume "g u = Response 200 (Text html)"
  from process_text [of g u html P, OF this] assms show ?thesis by auto
qed

lemma scrape_urls_records:
  assumes "schedule (length urls) order"
  shows "\<exists>rs. scrape_urls P T order urls C = Some (Inr rs) \<and>
           (\<forall>r\<in>set rs. \<exists>i<length urls.
              process_result P (fetch_url (T C i) (urls ! i)) = Inr r)"
proof -
  obtain rs where rs: "scrape_urls P T order urls C = Some (Inr rs)" "length rs = length urls"
    and each: "\<forall>i<length urls. process_result P (fetch_url (T C i) (urls ! i)) = Inr (rs ! i)"
    using scrape_urls_run [OF assms] by blast
  have "\<exists>i<length urls. process_result P (fetch_url (T C i) (urls ! i)) = Inr r"
    if "r \<in> set rs" for r
  proof -
    from that obtain i where "i < length rs" "rs ! i = r" by (auto simp: in_set_conv_nth)
    with rs(2) each show ?thesis by auto
  qed
  with rs(1) show ?thesis by blast
qed

text \<open>
  C9. Every record that \<open>scrape_urls\<close> returns with success true has a status field,
  and its value is 200.
\<close>

theorem success_status_ok:
  assumes "schedule (length urls) order"
  shows "\<exists>rs. scrape_urls P T order urls C = Some (Inr rs) \<and>
           (\<forall>r\<in>set rs. getitem r ''success'' = Inr (VBool True) \<longrightarrow>
                        getitem r ''status'' = Inr (VInt 200))"
proof -
  obtain rs where rs: "scrape_urls P T order urls C = Some (Inr rs)"
    and each: "\<forall>r\<in>set rs. \<exists>i<length urls.
              process_result P (fetch_url (T C i) (urls ! i)) = Inr r"
    using scrape_urls_records [OF assms] by blast
  have "getitem r ''status'' = Inr (VInt 200)"
    if "r \<in> set rs" "getitem r ''success'' = Inr (VBool True)" for r
  proof -
    from each that(1) obtain i where
      "process_result P (fetch_url (T C i) (urls ! i)) = Inr r" by blast
    from record_shapes [OF this] that(2) show ?thesis
      by (auto simp: getitem_def)
  qed
  with rs show ?thesis by blast
qed

text \<open>
  C2, as amended. In every record that \<open>scrape_urls\<close> returns, success is true or
  false. When it is true, an extracted_content field is present and neither an error
  field nor a content field is. When it is false, an error field is present, no
  extracted_content field is, and the content field is present with the value
  \<^verbatim>\<open>None\<close>: no returned record holds a fetched body in its content field.
\<close>

theorem record_fields_exclusive:
  assumes "schedule (length urls) order"
  shows "\<exists>rs. scrape_urls P T order urls C = Some (Inr rs) \<and>
           (\<forall>r\<in>set rs.
              (getitem r ''success'' = Inr (VBool True) \<or>
               getitem r ''success'' = Inr (VBool False)) \<and>
              (getitem r ''success'' = Inr (VBool True) \<longrightarrow>
                 has_key r ''extracted_content'' \<and> \<not> has_key r ''error'' \<and>
                 \<not> has_key r ''content'') \<and>
              (getitem r ''success'' = Inr (VBool False) \<longrightarrow>
                 has_key r ''error'' \<and> \<not> has_key r ''extracted_content'' \<and>
                 getitem r ''content'' = Inr VNone))"
proof -
  obtain rs where rs: "scrape_urls P T order urls C = Some (Inr rs)"
    and each: "\<forall>r\<in>set rs. \<exists>i<length urls.
              process_result P (fetch_url (T C i) (urls ! i)) = Inr r"
    using scrape_urls_records [OF assms] by blast
  have "(getitem r ''success'' = Inr (VBool True) \<or>
               getitem r ''success'' = Inr (VBool False)) \<and>
              (getitem r ''success'' = Inr (VBool True) \<longrightarrow>
                 has_key r ''extracted_content'' \<and> \<not> has_key r ''error'' \<and>
                 \<not> has_key r ''content'') \<and>
              (getitem r ''success'' = Inr (VBool False) \<longrightarrow>
                 has_key r ''error'' \<and> \<not> has_key r ''extracted_content'' \<and>
                 getitem r ''content'' = Inr VNone)"
    if "r \<in> set rs" for r
  proof -
    from each that(1) obtain i where
      "process_result P (fetch_url (T C i) (urls ! i)) = Inr r" by blast
    from record_shapes [OF this] show ?thesis
      by (auto simp: getitem_def has_key_def)
  qed
  with rs show ?thesis by blast
qed

text \<open>
  C3. When the exchange for a URL completes with a status other than 200, the record
  for that URL has success false, that status in its status field and a non-empty
  error message built from the status; its content field is \<^verbatim>\<open>None\<close>, the body is never
  read, and no extracted_content field is added.
\<close>

theorem non_ok_status_is_failure:
  assumes "schedule (length urls) order" and "i < length urls"
    and "T C i (urls ! i) = Response status b" and "status \<noteq> 200"
  shows "\<exists>rs. scrape_urls P T order urls C = Some (Inr rs) \<and>
           rs ! i = [(''url'', VStr (urls ! i)), (''success'', VBool False),
                     (''status'', VInt status),
                     (''error'', VStr (''HTTP error: '' @ str_int status)),
                     (''content'', VNone)] \<and>
           getitem (rs ! i) ''success'' = Inr (VBool False) \<and>
           getitem (rs ! i) ''status'' = Inr (VInt status) \<and>
           (\<exists>msg. getitem (rs ! i) ''error'' = Inr (VStr msg) \<and> msg \<noteq> []) \<and>
           getitem (rs ! i) ''content'' = Inr VNone \<and>
           \<not> has_key (rs ! i) ''extracted_content''"
proof -
  obtain rs where rs: "scrape_urls P T order urls C = Some (Inr rs)"
    and each: "\<forall>i<length urls. process_result P (fetch_url (T C i) (urls ! i)) = Inr (rs ! i)"
    using scrape_urls_run [OF assms(1)] by blast
  from each assms(2) process_bad_status [of "T C i" "urls ! i" status b P, OF assms(3,4)]
  have "rs ! i = [(''url'', VStr (urls ! i)), (''success'', VBool False),
                     (''status'', VInt status),
                     (''error'', VStr (''HTTP error: '' @ str_int status)),
                     (''content'', VNone)]" by simp
  with rs show ?thesis by (simp add: getitem_def has_key_def)
qed



text \<open>
  C7. Whatever the body of a page that was fetched with status 200, empty, malformed
  or cut off, and whatever the parser does with it, no exception leaves the batch: the
  record of the URL is returned with success true and a string as its extracted
  content. That string is the value of \<open>extract_main_content\<close>: the fixed string
  \<^verbatim>\<open>Error extracting content\<close> when the body of its \<^verbatim>\<open>try\<close> raises, and the text
  collected from the parsed tree when it does not.
\<close>

theorem extraction_never_propagates:
  assumes "schedule (length urls) order" and "i < length urls"
    and "T C i (urls ! i) = Response 200 (Text html)"
  shows "\<exists>rs. scrape_urls P T order urls C = Some (Inr rs) \<and>
           rs ! i = [(''url'', VStr (urls ! i)), (''success'', VBool True),
                     (''status'', VInt 200),
                     (''extracted_content'', VStr (extract_main_content P html))] \<and>
           (case P html of
              Inl e \<Rightarrow>
                extract_body P html = Inl e \<and>
                extract_main_content P html = ''Error extracting content''
            | Inr parsed \<Rightarrow>
                extract_body P html = Inr (extract_main_content P html) \<and>
                extract_main_content P html =
                  strip (collect_text
                    (find_all text_tags (main_content (decompose_all noise_tags parsed))) []))"
proof -
  obtain rs where rs: "scrape_urls P T order urls C = Some (Inr rs)"
    and each: "\<forall>i<length urls. process_result P (fetch_url (T C i) (urls ! i)) = Inr (rs ! i)"
    using scrape_urls_run [OF assms(1)] by blast
  from each assms(2) process_text [of "T C i" "urls ! i" html P, OF assms(3)]
  have "rs ! i = [(''url'', VStr (urls ! i)), (''success'', VBool True),
                     (''status'', VInt 200),
                     (''extracted_content'', VStr (extract_main_content P html))]" by simp
  moreover have "case P html of
              Inl e \<Rightarrow>
                extract_body P html = Inl e \<and>
                extract_main_content P html = ''Error extracting content''
            | Inr parsed \<Rightarrow>
                extract_body P html = Inr (extract_main_content P html) \<and>
                extract_main_content P html =
                  strip (collect_text
                    (find_all text_tags (main_content (decompose_all noise_tags parsed))) [])"
    by (simp add: extract_main_content_def extract_body_def split: sum.splits)
  ultimately show ?thesis using rs by blast
qed


lemma sample_run:
  "scrape_urls sample_parser sample_session [2, 0, 1] sample_urls 5 =
     Some (Inr [[(''url'', VStr ''http://a''), (''success'', VBool True), (''status'', VInt 200),
                 (''extracted_content'',
                    VStr [CHR ''T'', CHR ''i'', CHR ''t'', CHR ''l'', CHR ''e'', CHR 0x0A, CHR 0x0A,
                          CHR ''o'', CHR ''n'', CHR ''e'', CHR 0x0A, CHR 0x0A,
                          CHR ''t'', CHR ''w'', CHR ''o''])],
                [(''url'', VStr ''http://b''), (''success'', VBool False), (''status'', VInt 404),
                 (''error'', VStr ''HTTP error: 404''), (''content'', VNone)],
                [(''url'', VStr ''http://c''), (''success'', VBool False),
                 (''error'',
                   VStr ''Cannot connect to host c:80 ssl:default [Connection refused]''), (''content'', VNone)]])"
  by code_simp

text \<open>
  C2 as stated fails: the records of the two failed fetches below are returned with a
  content field.
\<close>

theorem content_field_present_counterexample:
  "scrape_urls sample_parser sample_session [2, 0, 1] sample_urls 5 =
     Some (Inr [[(''url'', VStr ''http://a''), (''success'', VBool True), (''status'', VInt 200),
                 (''extracted_content'',
                    VStr [CHR ''T'', CHR ''i'', CHR ''t'', CHR ''l'', CHR ''e'', CHR 0x0A, CHR 0x0A,
                          CHR ''o'', CHR ''n'', CHR ''e'', CHR 0x0A, CHR 0x0A,
                          CHR ''t'', CHR ''w'', CHR ''o''])],
                [(''url'', VStr ''http://b''), (''success'', VBool False), (''status'', VInt 404),
                 (''error'', VStr ''HTTP error: 404''), (''content'', VNone)],
                [(''url'', VStr ''http://c''), (''success'', VBool False),
                 (''error'',
                   VStr ''Cannot connect to host c:80 ssl:default [Connection refused]''), (''content'', VNone)]]) \<and>
   has_key [(''url'', VStr ''http://b''), (''success'', VBool False), (''status'', VInt 404),
            (''error'', VStr ''HTTP error: 404''), (''content'', VNone)] ''content'' \<and>
   has_key [(''url'', VStr ''http://c''), (''success'', VBool False),
            (''error'',
                   VStr ''Cannot connect to host c:80 ssl:default [Connection refused]''), (''content'', VNone)] ''content''"
  using sample_run by (simp add: has_key_def)

theorem success_status_ok_witness:
  "schedule (length sample_urls) [2, 0, 1] \<and>
   (\<exists>rs. scrape_urls sample_parser sample_session [2, 0, 1] sample_urls 5 = Some (Inr rs) \<and>
      getitem (rs ! 0) ''success'' = Inr (VBool True) \<and>
      getitem (rs ! 0) ''status'' = Inr (VInt 200))"
proof -
  obtain rs where rs:
    "scrape_urls sample_parser sample_session [2, 0, 1] sample_urls 5 = Some (Inr rs)"
    and ok: "\<forall>r\<in>set rs. getitem r ''success'' = Inr (VBool True) \<longrightarrow>
                        getitem r ''status'' = Inr (VInt 200)"
    using success_status_ok [OF sample_schedule] by blast
  from rs sample_run have "length rs = 3" and "getitem (rs ! 0) ''success'' = Inr (VBool True)"
    by (auto simp: getitem_def)
  with ok have "getitem (rs ! 0) ''status'' = Inr (VInt 200)" by simp
  with rs sample_schedule \<open>getitem (rs ! 0) ''success'' = Inr (VBool True)\<close>
  show ?thesis by blast
qed

theorem record_fields_exclusive_witness:
  "schedule (length sample_urls) [2, 0, 1] \<and>
   (\<exists>rs. scrape_urls sample_parser sample_session [2, 0, 1] sample_urls 5 = Some (Inr rs) \<and>
      getitem (rs ! 0) ''success'' = Inr (VBool True) \<and>
      has_key (rs ! 0) ''extracted_content'' \<and> \<not> has_key (rs ! 0) ''error'' \<and>
      \<not> has_key (rs ! 0) ''content'' \<and>
      getitem (rs ! 2) ''success'' = Inr (VBool False) \<and>
      has_key (rs ! 2) ''error'' \<and> \<not> has_key (rs ! 2) ''extracted_content'' \<and>
      getitem (rs ! 2) ''content'' = Inr VNone)"
proof -
  obtain rs where rs:
    "scrape_urls sample_parser sample_session [2, 0, 1] sample_urls 5 = Some (Inr rs)"
    and ok: "\<forall>r\<in>set rs.
              (getitem r ''success'' = Inr (VBool True) \<or>
               getitem r ''success'' = Inr (VBool False)) \<and>
              (getitem r ''success'' = Inr (VBool True) \<longrightarrow>
                 has_key r ''extracted_content'' \<and> \<not> has_key r ''error'' \<and>
                 \<not> has_key r ''content'') \<and>
              (getitem r ''success'' = Inr (VBool False) \<longrightarrow>
                 has_key r ''error'' \<and> \<not> has_key r ''extracted_content'' \<and>
                 getitem r ''content'' = Inr VNone)"
    using record_fields_exclusive [OF sample_schedule] by blast
  from rs sample_run have len: "length rs = 3"
    and s0: "getitem (rs ! 0) ''success'' = Inr (VBool True)"
    and s2: "getitem (rs ! 2) ''success'' = Inr (VBool False)"
    by (auto simp: getitem_def)
  from len have "rs ! 0 \<in> set rs" and "rs ! 2 \<in> set rs" by simp_all
  with ok s0 s2 rs sample_schedule show ?thesis by blast
qed

theorem non_ok_status_is_failure_witness:
  "schedule (length sample_urls) [2, 0, 1] \<and> 1 < length sample_urls \<and>
   sample_session 5 1 (sample_urls ! 1) = Response 404 (Text ''gone'') \<and> (404 :: int) \<noteq> 200 \<and>
   (\<exists>rs. scrape_urls sample_parser sample_session [2, 0, 1] sample_urls 5 = Some (Inr rs) \<and>
      rs ! 1 = [(''url'', VStr ''http://b''), (''success'', VBool False), (''status'', VInt 404),
                (''error'', VStr ''HTTP error: 404''), (''content'', VNone)])"
proof -
  have i: "1 < length sample_urls" by (simp add: sample_urls_def)
  have r: "sample_session 5 1 (sample_urls ! 1) = Response 404 (Text ''gone'')"
    by (simp add: sample_session_def)
  have n: "(404 :: int) \<noteq> 200" by simp
  have s: "str_int 404 = ''404''" by code_simp
  from non_ok_status_is_failure [where T = sample_session and C = 5 and i = 1
      and urls = sample_urls and P = sample_parser, OF sample_schedule i r n]
  show ?thesis using sample_schedule i r s by (auto simp: sample_urls_def)
qed



theorem extraction_never_propagates_witness:
  "schedule (length sample_urls) [2, 0, 1] \<and>
   degraded_session 5 0 (sample_urls ! 0) = Response 200 (Text ''<![1'') \<and>
   degraded_session 5 1 (sample_urls ! 1) = Response 200 (Text []) \<and>
   degraded_session 5 2 (sample_urls ! 2) = Response 200 (Text ''<p>cut'') \<and>
   sample_parser ''<![1'' =
     Inl (Exception ''The markup you provided was rejected by the parser.'') \<and>
   sample_parser [] = Inr (Tag ''[document]'' [] []) \<and>
   sample_parser ''<p>cut'' =
     Inr (Tag ''[document]'' [] [Tag ''p'' [] [NavigableString ''cut'']]) \<and>
   (\<exists>rs. scrape_urls sample_parser degraded_session [2, 0, 1] sample_urls 5 = Some (Inr rs) \<and>
      rs ! 0 = [(''url'', VStr ''http://a''), (''success'', VBool True), (''status'', VInt 200),
                (''extracted_content'', VStr ''Error extracting content'')] \<and>
      rs ! 1 = [(''url'', VStr ''http://b''), (''success'', VBool True), (''status'', VInt 200),
                (''extracted_content'', VStr [])] \<and>
      rs ! 2 = [(''url'', VStr ''http://c''), (''success'', VBool True), (''status'', VInt 200),
                (''extracted_content'', VStr ''cut'')])"
proof -
  have r0: "degraded_session 5 0 (sample_urls ! 0) = Response 200 (Text ''<![1'')"
    and r1: "degraded_session 5 1 (sample_urls ! 1) = Response 200 (Text [])"
    and r2: "degraded_session 5 2 (sample_urls ! 2) = Response 200 (Text ''<p>cut'')"
    by (simp_all add: degraded_session_def)
  have p0: "sample_parser ''<![1'' =
      Inl (Exception ''The markup you provided was rejected by the parser.'')"
    and p1: "sample_parser [] = Inr (Tag ''[document]'' [] [])"
    and p2: "sample_parser ''<p>cut'' =
      Inr (Tag ''[document]'' [] [Tag ''p'' [] [NavigableString ''cut'']])"
    by (simp_all add: sample_parser_def sample_html_def article_html_def)
  have i0: "0 < length sample_urls" and i1: "1 < length sample_urls"
    and i2: "2 < length sample_urls" by (simp_all add: sample_urls_def)
  have b1: "extract_main_content sample_parser [] = []" by code_simp
  have b2: "extract_main_content sample_parser ''<p>cut'' = ''cut''" by code_simp
  from extraction_never_propagates [where T = degraded_session and C = 5 and i = 0
      and urls = sample_urls and P = sample_parser, OF sample_schedule i0 r0]
  obtain rs where rs:
    "scrape_urls sample_parser degraded_session [2, 0, 1] sample_urls 5 = Some (Inr rs)"
    and a0: "rs ! 0 = [(''url'', VStr (sample_urls ! 0)), (''success'', VBool True),
                     (''status'', VInt 200),
                     (''extracted_content'', VStr (extract_main_content sample_parser ''<![1''))]"
    and b0: "extract_main_content sample_parser ''<![1'' = ''Error extracting content''"
    by (auto simp: p0)
  from extraction_never_propagates [where T = degraded_session and C = 5 and i = 1
      and urls = sample_urls and P = sample_parser, OF sample_schedule i1 r1] rs
  have a1: "rs ! 1 = [(''url'', VStr (sample_urls ! 1)), (''success'', VBool True),
                     (''status'', VInt 200),
                     (''extracted_content'', VStr (extract_main_content sample_parser []))]"
    by auto
  from extraction_never_propagates [where T = degraded_session and C = 5 and i = 2
      and urls = sample_urls and P = sample_parser, OF sample_schedule i2 r2] rs
  have a2: "rs ! 2 = [(''url'', VStr (sample_urls ! 2)), (''success'', VBool True),
                     (''status'', VInt 200),
                     (''extracted_content'', VStr (extract_main_content sample_parser ''<p>cut''))]"
    by auto
  from rs a0 a1 a2 b0 b1 b2 sample_schedule r0 r1 r2 p0 p1 p2 show ?thesis
    by (auto simp: sample_urls_def)
qed

section \<open>The extracted text\<close>

subsection \<open>Building the text\<close>

lemma collect_text_eq:
  "collect_text ps acc =
     acc @ concat (map (\<lambda>p. strip (get_text p) @ [CHR 0x0A, CHR 0x0A]) ps)"
  by (induction ps arbitrary: acc) auto

lemma concat_sep_join:
  "es \<noteq> [] \<Longrightarrow> concat (map (\<lambda>e. e @ sep) es) = join sep es @ sep"
  by (induction sep es rule: join.induct) auto

lemma strip_append_space:
  assumes "\<forall>c\<in>set w. py_isspace c"
  shows "strip (x @ w) = strip x"
proof (cases "\<forall>c\<in>set x. py_isspace c")
  case True
  with assms have a: "dropWhile py_isspace (x @ w) = []" and b: "dropWhile py_isspace x = []"
    by auto
  show ?thesis unfolding strip_def lstrip_def rstrip_def a b ..
next
  case False
  then obtain c where "c \<in> set x" "\<not> py_isspace c" by blast
  then have "dropWhile py_isspace (x @ w) = dropWhile py_isspace x @ w"
    by (rule dropWhile_append1)
  moreover have "dropWhile py_isspace (rev w @ ys) = dropWhile py_isspace ys" for ys
    by (rule dropWhile_append2) (use assms in auto)
  ultimately show ?thesis by (simp add: strip_def lstrip_def rstrip_def)
qed

lemma blank_line_space: "\<forall>c\<in>set [CHR 0x0A, CHR 0x0A]. py_isspace c"
  by (simp add: py_isspace_def)

lemma strip_Nil: "strip [] = []"
  by (simp add: strip_def lstrip_def rstrip_def)

lemma strip_entries_join:
  "strip (concat (map (\<lambda>e. e @ [CHR 0x0A, CHR 0x0A]) es)) = strip (join [CHR 0x0A, CHR 0x0A] es)"
proof (cases "es = []")
  case True
  then show ?thesis by simp
next
  case False
  then show ?thesis
    using strip_append_space [OF blank_line_space]
    by (simp add: concat_sep_join)
qed

lemma strip_decomposition:
  "\<exists>l r. s = l @ strip s @ r \<and> (\<forall>c\<in>set l. py_isspace c) \<and> (\<forall>c\<in>set r. py_isspace c)"
proof -
  let ?m = "dropWhile py_isspace s"
  have "s = takeWhile py_isspace s @ ?m" by simp
  moreover have "?m = rev (dropWhile py_isspace (rev ?m)) @ rev (takeWhile py_isspace (rev ?m))"
    by (metis rev_append rev_rev_ident takeWhile_dropWhile_id)
  moreover have "\<forall>c\<in>set (takeWhile py_isspace s). py_isspace c"
    by (meson set_takeWhileD)
  moreover have "\<forall>c\<in>set (rev (takeWhile py_isspace (rev ?m))). py_isspace c"
    by (metis set_rev set_takeWhileD)
  ultimately show ?thesis
    unfolding strip_def lstrip_def rstrip_def by metis
qed

lemma strip_ends:
  assumes "strip s \<noteq> []"
  shows "\<not> py_isspace (hd (strip s)) \<and> \<not> py_isspace (last (strip s))"
proof -
  let ?m = "dropWhile py_isspace s"
  let ?d = "dropWhile py_isspace (rev ?m)"
  have e: "strip s = rev ?d" by (simp add: strip_def lstrip_def rstrip_def)
  with assms have d: "?d \<noteq> []" by simp
  then have "\<not> py_isspace (hd ?d)" by (rule hd_dropWhile)
  then have l: "\<not> py_isspace (last (strip s))" using d e by (simp add: last_rev)
  have m: "?m = rev ?d @ rev (takeWhile py_isspace (rev ?m))"
    by (metis rev_append rev_rev_ident takeWhile_dropWhile_id)
  from d have "rev ?d \<noteq> []" by simp
  with m have "hd ?m = hd (rev ?d)" by (metis hd_append2)
  moreover from m d have "?m \<noteq> []" by (metis Nil_is_append_conv rev_is_Nil_conv)
  then have "\<not> py_isspace (hd ?m)" by (rule hd_dropWhile)
  ultimately show ?thesis using l e by simp
qed

subsection \<open>Removing tags and probing the selectors\<close>

lemma matches_decompose: "matches s (decompose_all ns n) = matches s n"
  by (cases n; cases s) simp_all

lemma descendants_Tag:
  "set (descendants (Tag n a cs)) = (\<Union>c\<in>set cs. insert c (set (descendants c)))"
  by auto

lemma descendants_decompose:
  "m \<in> set (descendants (decompose_all ns t)) \<Longrightarrow>
   \<exists>m'\<in>set (descendants t). m = decompose_all ns m'"
proof (induction t arbitrary: m)
  case (Tag n a cs)
  from Tag.prems obtain c where c: "c \<in> set cs" "\<not> has_name ns c"
    and m: "m = decompose_all ns c \<or> m \<in> set (descendants (decompose_all ns c))"
    by auto
  from m show ?case
  proof
    assume "m = decompose_all ns c"
    with c(1) show ?thesis by auto
  next
    assume "m \<in> set (descendants (decompose_all ns c))"
    with Tag.IH [OF c(1)] obtain m' where "m' \<in> set (descendants c)" "m = decompose_all ns m'"
      by blast
    with c(1) show ?thesis by auto
  qed
next
  case (NavigableString x)
  then show ?case by simp
next
  case (Comment x)
  then show ?case by simp
qed

lemma select_decompose_Nil:
  assumes "select s t = []"
  shows "select s (decompose_all ns t) = []"
proof -
  have "\<not> matches s m" if "m \<in> set (descendants (decompose_all ns t))" for m
  proof -
    from descendants_decompose [OF that] obtain m' where
      m': "m' \<in> set (descendants t)" "m = decompose_all ns m'" by blast
    from assms m'(1) have "\<not> matches s m'" by (simp add: select_def filter_empty_conv)
    with m'(2) show ?thesis by (simp add: matches_decompose)
  qed
  then show ?thesis by (simp add: select_def filter_empty_conv)
qed

lemma probe_first:
  "k < length sels \<Longrightarrow> \<forall>j<k. select (sels ! j) soup = [] \<Longrightarrow> select (sels ! k) soup \<noteq> [] \<Longrightarrow>
   probe sels soup = Some (hd (select (sels ! k) soup))"
proof (induction sels arbitrary: k)
  case Nil
  then show ?case by simp
next
  case (Cons s sels)
  show ?case
  proof (cases k)
    case 0
    with Cons.prems show ?thesis by (simp split: list.splits)
  next
    case (Suc k')
    with Cons.prems have "select s soup = []" by auto
    moreover from Suc Cons.prems have "k' < length sels"
      and "\<forall>j<k'. select (sels ! j) soup = []" and "select (sels ! k') soup \<noteq> []"
      by auto
    ultimately show ?thesis using Cons.IH [of k'] Suc by simp
  qed
qed

lemma probe_none: "\<forall>s\<in>set sels. select s soup = [] \<Longrightarrow> probe sels soup = None"
  by (induction sels) auto

lemma select_first:
  assumes "select s soup \<noteq> []"
  shows "\<exists>before after. descendants soup = before @ hd (select s soup) # after \<and>
           matches s (hd (select s soup)) \<and> (\<forall>n\<in>set before. \<not> matches s n)"
proof -
  from assms obtain y ys where "filter (matches s) (descendants soup) = y # ys"
    by (cases "select s soup") (auto simp: select_def)
  then obtain us vs where "descendants soup = us @ y # vs" "\<forall>u\<in>set us. \<not> matches s u"
    "matches s y" by (auto simp: filter_eq_Cons_iff)
  moreover from \<open>filter (matches s) (descendants soup) = y # ys\<close>
  have "hd (select s soup) = y" by (simp add: select_def)
  ultimately show ?thesis by blast
qed

lemma extract_parsed:
  "P html = Inr parsed \<Longrightarrow>
   extract_main_content P html =
     strip (collect_text (find_all text_tags (main_content (decompose_all noise_tags parsed))) [])"
  by (simp add: extract_main_content_def extract_body_def)

text \<open>
  C5. On every input that parses, the extractor works on the tree left after the
  script, style, nav, footer and iframe tags are removed, and takes its text from one
  region of it. The selectors are probed in the order main, article, role main, id
  content, class content, id main, class main: when the selector at position \<open>k\<close> is
  the first to match a node, the region is the first node in document order that it
  matches. When no selector matches, the region is the body, and the whole tree when
  there is no body.
\<close>

theorem main_content_priority:
  assumes "BeautifulSoup html = Inr parsed"
  shows "let soup = decompose_all noise_tags parsed; region = main_content soup in
     extract_main_content BeautifulSoup html =
       strip (collect_text (find_all text_tags region) []) \<and>
     containers =
       [TypeSel ''main'', TypeSel ''article'', AttrSel ''role'' ''main'', IdSel ''content'',
        ClassSel ''content'', IdSel ''main'', ClassSel ''main''] \<and>
     (\<forall>k<length containers.
        (\<forall>j<k. select (containers ! j) soup = []) \<and> select (containers ! k) soup \<noteq> [] \<longrightarrow>
        region = hd (select (containers ! k) soup) \<and>
        (\<exists>before after. descendants soup = before @ region # after \<and>
           matches (containers ! k) region \<and>
           (\<forall>n\<in>set before. \<not> matches (containers ! k) n))) \<and>
     ((\<forall>s\<in>set containers. select s soup = []) \<longrightarrow>
        region = (case soup_body soup of Some b \<Rightarrow> b | None \<Rightarrow> soup))"
proof -
  let ?soup = "decompose_all noise_tags parsed"
  have first: "main_content ?soup = hd (select (containers ! k) ?soup) \<and>
        (\<exists>before after. descendants ?soup = before @ main_content ?soup # after \<and>
           matches (containers ! k) (main_content ?soup) \<and>
           (\<forall>n\<in>set before. \<not> matches (containers ! k) n))"
    if "k < length containers" "\<forall>j<k. select (containers ! j) ?soup = []"
      "select (containers ! k) ?soup \<noteq> []" for k
  proof -
    from probe_first [OF that]
    have "main_content ?soup = hd (select (containers ! k) ?soup)"
      by (simp add: main_content_def)
    with select_first [OF that(3)] show ?thesis by simp
  qed
  have fallback: "main_content ?soup = (case soup_body ?soup of Some b \<Rightarrow> b | None \<Rightarrow> ?soup)"
    if "\<forall>s\<in>set containers. select s ?soup = []"
    using probe_none [OF that] by (simp add: main_content_def)
  have "containers =
       [TypeSel ''main'', TypeSel ''article'', AttrSel ''role'' ''main'', IdSel ''content'',
        ClassSel ''content'', IdSel ''main'', ClassSel ''main'']"
    by (simp add: containers_def)
  with extract_parsed [of BeautifulSoup html parsed, OF assms] first fallback show ?thesis
    unfolding Let_def by blast
qed

text \<open>
  C6, as amended. When no selector of the list matches a node of the parsed document
  and the tree without script, style, nav, footer and iframe tags has a body, the
  output is the text of every paragraph, heading and list item below that body, in
  document order, each stripped of its own leading and trailing whitespace, joined
  with a blank line between consecutive entries, the result stripped.
\<close>

theorem body_text_joined:
  assumes "BeautifulSoup html = Inr parsed"
    and "\<forall>s\<in>set containers. select s parsed = []"
    and "soup_body (decompose_all noise_tags parsed) = Some b"
  shows "extract_main_content BeautifulSoup html =
           strip (join [CHR 0x0A, CHR 0x0A]
                    (map (\<lambda>p. strip (get_text p)) (find_all text_tags b)))"
proof -
  from assms(2) have "\<forall>s\<in>set containers. select s (decompose_all noise_tags parsed) = []"
    by (simp add: select_decompose_Nil)
  then have "probe containers (decompose_all noise_tags parsed) = None"
    by (rule probe_none)
  with assms(3) have "main_content (decompose_all noise_tags parsed) = b"
    by (simp add: main_content_def)
  with extract_parsed [of BeautifulSoup html parsed, OF assms(1)]
  have "extract_main_content BeautifulSoup html =
          strip (concat (map (\<lambda>p. strip (get_text p) @ [CHR 0x0A, CHR 0x0A])
                   (find_all text_tags b)))"
    by (simp add: collect_text_eq)
  also have "concat (map (\<lambda>p. strip (get_text p) @ [CHR 0x0A, CHR 0x0A]) (find_all text_tags b))
    = concat (map (\<lambda>e. e @ [CHR 0x0A, CHR 0x0A])
        (map (\<lambda>p. strip (get_text p)) (find_all text_tags b)))"
    by (simp add: comp_def)
  finally show ?thesis by (simp only: strip_entries_join)
qed

text \<open>
  C10. The output is built from one entry per collected paragraph, heading or list
  item, each followed by a blank line. An entry is the text of its node without the
  whitespace around it: the text is the entry between two runs of whitespace, and an
  entry that is not empty neither starts nor ends with whitespace.
\<close>

theorem entries_stripped:
  assumes "BeautifulSoup html = Inr parsed"
  shows "let region = main_content (decompose_all noise_tags parsed);
             entries = map (\<lambda>p. strip (get_text p)) (find_all text_tags region) in
         extract_main_content BeautifulSoup html =
           strip (concat (map (\<lambda>e. e @ [CHR 0x0A, CHR 0x0A]) entries)) \<and>
         (\<forall>p\<in>set (find_all text_tags region).
            (\<exists>l r. get_text p = l @ strip (get_text p) @ r \<and>
                   (\<forall>c\<in>set l. py_isspace c) \<and> (\<forall>c\<in>set r. py_isspace c)) \<and>
            (strip (get_text p) \<noteq> [] \<longrightarrow>
               \<not> py_isspace (hd (strip (get_text p))) \<and>
               \<not> py_isspace (last (strip (get_text p)))))"
proof -
  have "extract_main_content BeautifulSoup html =
          strip (concat (map (\<lambda>e. e @ [CHR 0x0A, CHR 0x0A])
            (map (\<lambda>p. strip (get_text p))
               (find_all text_tags (main_content (decompose_all noise_tags parsed))))))"
    using extract_parsed [of BeautifulSoup html parsed, OF assms] by (simp add: collect_text_eq comp_def)
  then show ?thesis
    unfolding Let_def using strip_decomposition strip_ends by blast
qed

lemma parse_sample: "sample_parser sample_html = Inr sample_doc"
  by (simp add: sample_parser_def)

lemma parse_article: "sample_parser article_html = Inr article_doc"
  by (simp add: sample_parser_def sample_html_def article_html_def)

lemma sample_no_container: "\<forall>s\<in>set containers. select s sample_doc = []"
  by code_simp

lemma sample_soup_body: "soup_body (decompose_all noise_tags sample_doc) = Some sample_body"
  by code_simp

lemma sample_extracted:
  "extract_main_content sample_parser sample_html =
     ''Title'' @ [CHR 0x0A, CHR 0x0A] @ ''one'' @ [CHR 0x0A, CHR 0x0A] @ ''two''"
  by code_simp

theorem main_content_priority_witness:
  "sample_parser article_html = Inr article_doc \<and>
   select (TypeSel ''main'') (decompose_all noise_tags article_doc) = [] \<and>
   select (TypeSel ''article'') (decompose_all noise_tags article_doc) = [article_node] \<and>
   select (ClassSel ''content'') (decompose_all noise_tags article_doc) \<noteq> [] \<and>
   main_content (decompose_all noise_tags article_doc) = article_node \<and>
   extract_main_content sample_parser article_html =
     strip (collect_text (find_all text_tags article_node) [])"
proof -
  let ?soup = "decompose_all noise_tags article_doc"
  have s0: "select (containers ! 0) ?soup = []" by code_simp
  have s1: "select (containers ! 1) ?soup = [article_node]" by code_simp
  have s4: "select (ClassSel ''content'') ?soup \<noteq> []" by code_simp
  have k: "(1::nat) < length containers" by (simp add: containers_def)
  have before: "\<forall>j<1. select (containers ! j) ?soup = []" using s0 by simp
  have found: "select (containers ! 1) ?soup \<noteq> []" using s1 by simp
  from main_content_priority [of sample_parser article_html article_doc, OF parse_article]
  have ext: "extract_main_content sample_parser article_html =
       strip (collect_text (find_all text_tags (main_content ?soup)) [])"
    and first: "\<forall>k<length containers.
        (\<forall>j<k. select (containers ! j) ?soup = []) \<and> select (containers ! k) ?soup \<noteq> [] \<longrightarrow>
        main_content ?soup = hd (select (containers ! k) ?soup) \<and>
        (\<exists>before after. descendants ?soup = before @ main_content ?soup # after \<and>
           matches (containers ! k) (main_content ?soup) \<and>
           (\<forall>n\<in>set before. \<not> matches (containers ! k) n))"
    unfolding Let_def by blast+
  from first k before found have "main_content ?soup = hd (select (containers ! 1) ?soup)"
    by blast
  with s1 have region: "main_content ?soup = article_node" by simp
  from s0 s1 have "select (TypeSel ''main'') ?soup = []"
    and "select (TypeSel ''article'') ?soup = [article_node]"
    by (simp_all add: containers_def)
  with parse_article s4 region ext show ?thesis by simp
qed

text \<open>
  C6 as stated fails: on the sample page, whose second entry is written with spaces
  around it, joining the texts of the nodes as they are keeps those spaces, and the
  extractor does not.
\<close>

theorem body_text_raw_counterexample:
  "sample_parser sample_html = Inr sample_doc \<and>
   concat (map (\<lambda>s. select s sample_doc) containers) = [] \<and>
   soup_body (decompose_all noise_tags sample_doc) = Some sample_body \<and>
   extract_main_content sample_parser sample_html =
     ''Title'' @ [CHR 0x0A, CHR 0x0A] @ ''one'' @ [CHR 0x0A, CHR 0x0A] @ ''two'' \<and>
   strip (join [CHR 0x0A, CHR 0x0A] (map get_text (find_all text_tags sample_body))) =
     ''Title'' @ [CHR 0x0A, CHR 0x0A] @ '' one '' @ [CHR 0x0A, CHR 0x0A] @ ''two'' \<and>
   extract_main_content sample_parser sample_html \<noteq>
     strip (join [CHR 0x0A, CHR 0x0A] (map get_text (find_all text_tags sample_body)))"
proof -
  have a: "concat (map (\<lambda>s. select s sample_doc) containers) = []" by code_simp
  have b: "strip (join [CHR 0x0A, CHR 0x0A] (map get_text (find_all text_tags sample_body))) =
     ''Title'' @ [CHR 0x0A, CHR 0x0A] @ '' one '' @ [CHR 0x0A, CHR 0x0A] @ ''two''"
    by code_simp
  from parse_sample a sample_soup_body sample_extracted b show ?thesis by simp
qed

theorem body_text_joined_witness:
  "sample_parser sample_html = Inr sample_doc \<and>
   concat (map (\<lambda>s. select s sample_doc) containers) = [] \<and>
   soup_body (decompose_all noise_tags sample_doc) = Some sample_body \<and>
   extract_main_content sample_parser sample_html =
     strip (join [CHR 0x0A, CHR 0x0A]
              (map (\<lambda>p. strip (get_text p)) (find_all text_tags sample_body))) \<and>
   map (\<lambda>p. strip (get_text p)) (find_all text_tags sample_body) = [''Title'', ''one'', ''two'']"
proof -
  have a: "concat (map (\<lambda>s. select s sample_doc) containers) = []" by code_simp
  have e: "map (\<lambda>p. strip (get_text p)) (find_all text_tags sample_body)
             = [''Title'', ''one'', ''two'']" by code_simp
  from body_text_joined [of sample_parser sample_html sample_doc sample_body,
      OF parse_sample sample_no_container sample_soup_body]
    parse_sample a sample_soup_body e
  show ?thesis by simp
qed

theorem entries_stripped_witness:
  "sample_parser sample_html = Inr sample_doc \<and>
   main_content (decompose_all noise_tags sample_doc) = sample_body \<and>
   Tag ''p'' [] [NavigableString '' one ''] \<in> set (find_all text_tags sample_body) \<and>
   get_text (Tag ''p'' [] [NavigableString '' one '']) = '' one '' \<and>
   strip (get_text (Tag ''p'' [] [NavigableString '' one ''])) = ''one'' \<and>
   \<not> py_isspace (hd (strip (get_text (Tag ''p'' [] [NavigableString '' one ''])))) \<and>
   \<not> py_isspace (last (strip (get_text (Tag ''p'' [] [NavigableString '' one ''])))) \<and>
   extract_main_content sample_parser sample_html =
     strip (concat (map (\<lambda>e. e @ [CHR 0x0A, CHR 0x0A])
       (map (\<lambda>p. strip (get_text p)) (find_all text_tags sample_body))))"
proof -
  let ?p = "Tag ''p'' [] [NavigableString '' one '']"
  have region: "main_content (decompose_all noise_tags sample_doc) = sample_body" by code_simp
  have mem: "?p \<in> set (find_all text_tags sample_body)" by code_simp
  have gt: "get_text ?p = '' one ''" by simp
  have st: "strip (get_text ?p) = ''one''" by code_simp
  from entries_stripped [of sample_parser sample_html sample_doc, OF parse_sample]
  have ext: "extract_main_content sample_parser sample_html =
           strip (concat (map (\<lambda>e. e @ [CHR 0x0A, CHR 0x0A])
             (map (\<lambda>p. strip (get_text p)) (find_all text_tags sample_body))))"
    and each: "\<forall>p\<in>set (find_all text_tags sample_body).
            (\<exists>l r. get_text p = l @ strip (get_text p) @ r \<and>
                   (\<forall>c\<in>set l. py_isspace c) \<and> (\<forall>c\<in>set r. py_isspace c)) \<and>
            (strip (get_text p) \<noteq> [] \<longrightarrow>
               \<not> py_isspace (hd (strip (get_text p))) \<and>
               \<not> py_isspace (last (strip (get_text p))))"
    unfolding Let_def region by blast+
  from st have "strip (get_text ?p) \<noteq> []" by simp
  with each mem have "\<not> py_isspace (hd (strip (get_text ?p))) \<and>
      \<not> py_isspace (last (strip (get_text ?p)))" by blast
  with parse_sample region mem gt st ext show ?thesis by blast
qed

end
